theory Spec2Isabelle
  imports Main
begin

section \<open>Data model of scripts/update-feeds.js\<close>

text \<open>
  A feed item is the plain object built by \<open>fetchRssFeed\<close> (or read back from a
  persisted snapshot).  The properties \<open>link\<close> and \<open>summary\<close> may be missing from
  an object, so they are optional strings: \<open>None\<close> is JavaScript's \<open>undefined\<close>.
  The remaining properties are always written by \<open>fetchRssFeed\<close> as strings.
\<close>

record item =
  title :: string
  link :: "string option"
  pubDate :: string
  isoDate :: string
  content :: string
  contentSnippet :: string
  creator :: string
  enclosure :: "(string \<times> string) option"
  summary :: "string option"

text \<open>
  JavaScript truthiness of an optional string: \<open>undefined\<close> and the empty string
  are falsy, every other string is truthy.
\<close>

definition truthy :: "string option \<Rightarrow> bool" where
  "truthy v = (case v of None \<Rightarrow> False | Some s \<Rightarrow> s \<noteq> [])"

text \<open>The operator \<open>a || b\<close> on optional strings.\<close>

definition js_or :: "string option \<Rightarrow> string option \<Rightarrow> string option" where
  "js_or a b = (if truthy a then a else b)"

text \<open>\<open>item.link\<close> used as a condition, and as a key of the \<open>Map\<close> once it is truthy.\<close>

definition has_link :: "item \<Rightarrow> bool" where
  "has_link it = truthy (link it)"

definition key :: "item \<Rightarrow> string" where
  "key it = (case link it of None \<Rightarrow> [] | Some l \<Rightarrow> l)"

section \<open>mergeFeedItems\<close>

text \<open>The \<open>Map\<close> keyed by link; only \<open>get\<close>, \<open>has\<close> and \<open>set\<close> are used on it.\<close>

type_synonym items_map = "string \<rightharpoonup> item"

text \<open>Body of the first loop: \<open>if (item.link) itemsMap.set(item.link, item)\<close>.\<close>

definition addOld :: "items_map \<Rightarrow> item \<Rightarrow> items_map" where
  "addOld m it = (if has_link it then m(key it \<mapsto> it) else m)"

text \<open>
  The expression \<open>{...item, summary: existingItem?.summary || item.summary}\<close>.
\<close>

definition serializedItem :: "item option \<Rightarrow> item \<Rightarrow> item" where
  "serializedItem existingItem it =
     it\<lparr>summary :=
          js_or (case existingItem of None \<Rightarrow> None | Some e \<Rightarrow> summary e) (summary it)\<rparr>"

text \<open>
  Body of the second loop, on the pair of the \<open>Map\<close> and \<open>newItemsForSummary\<close>.
\<close>

definition addNew :: "items_map \<times> item list \<Rightarrow> item \<Rightarrow> items_map \<times> item list" where
  "addNew st it =
     (case st of (m, newItemsForSummary) \<Rightarrow>
        if has_link it then
          (let existingItem = m (key it)
           in (m(key it \<mapsto> serializedItem existingItem it),
               if existingItem = None then newItemsForSummary @ [it]
               else newItemsForSummary))
        else (m, newItemsForSummary))"

text \<open>
  The final pipeline \<open>newItems.filter(...).map(...).slice(0, maxItems)\<close>.  The
  lookup in \<open>map\<close> is only ever applied to items that passed \<open>itemsMap.has\<close>.
  \<open>maxItems\<close> is a count (\<open>config.maxItemsPerFeed\<close>), hence a natural number.
\<close>

definition keep :: "items_map \<Rightarrow> item \<Rightarrow> bool" where
  "keep m it = (has_link it \<and> m (key it) \<noteq> None)"

definition fromMap :: "items_map \<Rightarrow> item \<Rightarrow> item" where
  "fromMap m it = (if has_link it then the (m (key it)) else it)"

definition mergeFeedItems :: "item list \<Rightarrow> item list \<Rightarrow> nat \<Rightarrow> item list \<times> item list" where
  "mergeFeedItems oldItems newItems maxItems =
     (let itemsMap0 = foldl addOld Map.empty oldItems;
          (itemsMap, newItemsForSummary) = foldl addNew (itemsMap0, []) newItems;
          mergedItems = take maxItems (map (fromMap itemsMap) (filter (keep itemsMap) newItems))
      in (mergedItems, newItemsForSummary))"

definition merged_of :: "item list \<Rightarrow> item list \<Rightarrow> nat \<Rightarrow> item list" where
  "merged_of oldItems newItems maxItems = fst (mergeFeedItems oldItems newItems maxItems)"

definition needs_summary_of :: "item list \<Rightarrow> item list \<Rightarrow> nat \<Rightarrow> item list" where
  "needs_summary_of oldItems newItems maxItems = snd (mergeFeedItems oldItems newItems maxItems)"

text \<open>An item with only a link and possibly a summary, as in the spec's scenarios.\<close>

definition mk :: "string \<Rightarrow> string option \<Rightarrow> item" where
  "mk l s = \<lparr>title = [], link = Some l, pubDate = [], isoDate = [], content = [],
             contentSnippet = [], creator = [], enclosure = None, summary = s\<rparr>"

section \<open>Errors and external collaborators\<close>

text \<open>
  Every \<open>throw\<close> of the script is a value of this type.  \<open>AbortError\<close> is
  \<open>retry.AbortError\<close> (HTTP 429), \<open>ApiError\<close> the error for any other non-ok
  status, \<open>NetworkError\<close> a rejected request or an unreadable body, \<open>FetchError\<close>
  and \<open>PersistError\<close> the errors that \<open>fetchRssFeed\<close> and \<open>saveFeedData\<close>
  re-throw, \<open>ReferenceError\<close> the use of an identifier that is bound nowhere,
  \<open>TypeError\<close> the iteration of a value that is not iterable.  \<open>NoAttempt\<close> is
  not thrown by the script: it is the result of a retry policy of zero attempts.
\<close>

datatype error =
    AbortError
  | ApiError nat
  | NetworkError
  | FetchError
  | PersistError
  | ReferenceError
  | TypeError
  | NoAttempt

text \<open>What the parser hands to \<open>fetchRssFeed\<close>: every property may be missing.\<close>

record raw_item =
  rawTitle :: "string option"
  rawLink :: "string option"
  rawPubDate :: "string option"
  rawIsoDate :: "string option"
  rawContent :: "string option"
  rawContentSnippet :: "string option"
  rawCreator :: "string option"
  rawEnclosure :: "(string option \<times> string option) option"

record raw_feed =
  rawFeedTitle :: "string option"
  rawFeedDescription :: "string option"
  rawFeedLink :: "string option"
  rawItems :: "raw_item list"

text \<open>The object returned by \<open>fetchRssFeed\<close>.\<close>

record feed =
  feedTitle :: string
  feedDescription :: string
  feedLink :: string
  feedItems :: "item list"

text \<open>The persisted snapshot \<open>updatedData\<close>.\<close>

record feed_data =
  sourceUrl :: string
  dataTitle :: string
  dataDescription :: string
  dataLink :: string
  items :: "item list"
  lastUpdated :: int

text \<open>
  The answer to one request of \<open>generateSummaryWithLimit\<close>: the request is
  rejected, or a response arrives with a status and a body.  The body is either
  not JSON, or JSON whose first candidate text (after \<open>trim\<close>) may be missing.
\<close>

datatype body = NotJson | Json "string option"

datatype http = Rejected | Http nat body

text \<open>A file of the data directory as \<open>loadFeedData\<close> meets it.\<close>

datatype file_state = Missing | Unreadable | Text string

text \<open>
  The parts of the configuration module \<open>config/rss-config.js\<close> that the script
  reads.  \<open>sources\<close> is \<open>None\<close> when the property is not an iterable value.
\<close>

record source =
  url :: string

record config =
  sources :: "source list option"
  maxItemsPerFeed :: nat

text \<open>
  The outside world, as parameters: the clock (the value of the n-th reading of
  \<open>Date.now()\<close>), the text-generation service (the answer to the n-th request,
  which sees the title and the content), the feed parser (the result of the n-th
  \<open>parseURL\<close>, \<open>None\<close> when it throws), \<open>JSON.parse\<close> (\<open>None\<close> when it throws)
  and \<open>JSON.stringify\<close>, the file name of a source and whether a file can be
  written.
\<close>

record env =
  clock :: "nat \<Rightarrow> int"
  respond :: "nat \<Rightarrow> string \<Rightarrow> string \<Rightarrow> http"
  parseURL :: "nat \<Rightarrow> string \<Rightarrow> raw_feed option"
  JSON_parse :: "string \<Rightarrow> feed_data option"
  JSON_stringify :: "feed_data \<Rightarrow> string"
  getSourceFilePath :: "string \<Rightarrow> string"
  writeOk :: "string \<Rightarrow> bool"

text \<open>
  The mutable state: the module-level variables \<open>currentMinuteTokens\<close> and
  \<open>lastResetTime\<close>, the files of the data directory, and three counters of what
  has happened so far (clock readings, requests sent, feeds fetched).
\<close>

record world =
  currentMinuteTokens :: nat
  lastResetTime :: int
  files :: "string \<Rightarrow> file_state"
  clockReads :: nat
  apiCalls :: nat
  fetches :: nat

definition Date_now :: "env \<Rightarrow> world \<Rightarrow> int \<times> world" where
  "Date_now e w = (clock e (clockReads w), w\<lparr>clockReads := clockReads w + 1\<rparr>)"

section \<open>Persistence\<close>

definition saveFeedData :: "env \<Rightarrow> string \<Rightarrow> feed_data \<Rightarrow> world \<Rightarrow> (error + unit) \<times> world" where
  "saveFeedData e sourceUrl' data w =
     (let filePath = getSourceFilePath e sourceUrl'
      in if writeOk e filePath
         then (Inr (), w\<lparr>files := (files w)(filePath := Text (JSON_stringify e data))\<rparr>)
         else (Inl PersistError, w))"

text \<open>
  \<open>loadFeedData\<close>: \<open>null\<close> when the file does not exist, and \<open>null\<close> from the
  \<open>catch\<close> block when reading or parsing throws.
\<close>

definition loadFeedData :: "env \<Rightarrow> string \<Rightarrow> world \<Rightarrow> feed_data option" where
  "loadFeedData e sourceUrl' w =
     (case files w (getSourceFilePath e sourceUrl') of
        Missing \<Rightarrow> None
      | Unreadable \<Rightarrow> None
      | Text data \<Rightarrow> (case JSON_parse e data of None \<Rightarrow> None | Some d \<Rightarrow> Some d))"

text \<open>The argument \<open>existingData?.items || []\<close> of the merge.\<close>

definition existingItems :: "env \<Rightarrow> string \<Rightarrow> world \<Rightarrow> item list" where
  "existingItems e sourceUrl' w =
     (case loadFeedData e sourceUrl' w of None \<Rightarrow> [] | Some d \<Rightarrow> items d)"

section \<open>fetchRssFeed\<close>

text \<open>\<open>x || ""\<close> on an optional string.\<close>

definition or_empty :: "string option \<Rightarrow> string" where
  "or_empty v = (case v of None \<Rightarrow> [] | Some s \<Rightarrow> s)"

text \<open>\<open>x || d\<close> for a default text \<open>d\<close>: the empty string is falsy as well.\<close>

definition or_default :: "string option \<Rightarrow> string \<Rightarrow> string" where
  "or_default v d = (case v of None \<Rightarrow> d | Some s \<Rightarrow> if s = [] then d else s)"

text \<open>
  The plain object built for every parsed item, and \<open>fetchRssFeed\<close> itself: any
  error of the parser is re-thrown as the fetch error.
\<close>

definition serializeItem :: "raw_item \<Rightarrow> item" where
  "serializeItem r =
     \<lparr>title = or_empty (rawTitle r), link = Some (or_empty (rawLink r)),
      pubDate = or_empty (rawPubDate r), isoDate = or_empty (rawIsoDate r),
      content = or_empty (rawContent r), contentSnippet = or_empty (rawContentSnippet r),
      creator = or_empty (rawCreator r),
      enclosure = (case rawEnclosure r of None \<Rightarrow> None
                   | Some (u, t) \<Rightarrow> Some (or_empty u, or_empty t)),
      summary = None\<rparr>"

definition fetchRssFeed :: "env \<Rightarrow> string \<Rightarrow> world \<Rightarrow> (error + feed) \<times> world" where
  "fetchRssFeed e url' w =
     (let w' = w\<lparr>fetches := fetches w + 1\<rparr>
      in case parseURL e (fetches w) url' of
           None \<Rightarrow> (Inl FetchError, w')
         | Some f \<Rightarrow>
             (Inr \<lparr>feedTitle = or_empty (rawFeedTitle f),
                   feedDescription = or_empty (rawFeedDescription f),
                   feedLink = or_empty (rawFeedLink f),
                   feedItems = map serializeItem (rawItems f)\<rparr>, w'))"

section \<open>Summaries: one request, the retry policy, the token budget\<close>

text \<open>
  The two fixed texts of the script, as their UTF-8 bytes: the summary used when
  the service returns no text, and the placeholder attached when generation fails.
\<close>

definition NO_SUMMARY :: string where
  "NO_SUMMARY = [CHR 0xE6, CHR 0x97, CHR 0xA0, CHR 0xE6, CHR 0x9C, CHR 0x89, CHR 0xE6,
     CHR 0x95, CHR 0x88, CHR 0xE6, CHR 0x91, CHR 0x98, CHR 0xE8, CHR 0xA6, CHR 0x81,
     CHR 0xE7, CHR 0x94, CHR 0x9F, CHR 0xE6, CHR 0x88, CHR 0x90]"

definition SUMMARY_FAILED :: string where
  "SUMMARY_FAILED = [CHR 0xE6, CHR 0x91, CHR 0x98, CHR 0xE8, CHR 0xA6, CHR 0x81, CHR 0xE7,
     CHR 0x94, CHR 0x9F, CHR 0xE6, CHR 0x88, CHR 0x90, CHR 0xE5, CHR 0xA4, CHR 0xB1,
     CHR 0xE8, CHR 0xB4, CHR 0xA5, CHR 0xEF, CHR 0xBC, CHR 0x88, CHR 0xE8, CHR 0xAF,
     CHR 0xB7, CHR 0xE7, CHR 0xA8, CHR 0x8D, CHR 0xE5, CHR 0x90, CHR 0x8E, CHR 0xE9,
     CHR 0x87, CHR 0x8D, CHR 0xE8, CHR 0xAF, CHR 0x95, CHR 0xEF, CHR 0xBC, CHR 0x89]"

text \<open>
  One call of \<open>generateSummaryWithLimit\<close>.  The cleaning of the content and the
  prompt are part of what the service sees; the request queue only delays the
  request.  Status 429 throws the abort error, any other status outside 200-299
  throws, and the \<open>catch\<close> block re-throws whatever was thrown.
\<close>

definition generateSummaryWithLimit ::
    "env \<Rightarrow> string \<Rightarrow> string \<Rightarrow> world \<Rightarrow> (error + string) \<times> world" where
  "generateSummaryWithLimit e title' content' w =
     (let w' = w\<lparr>apiCalls := apiCalls w + 1\<rparr>
      in case respond e (apiCalls w) title' content' of
           Rejected \<Rightarrow> (Inl NetworkError, w')
         | Http status b \<Rightarrow>
             if status = 429 then (Inl AbortError, w')
             else if \<not> (200 \<le> status \<and> status \<le> 299) then (Inl (ApiError status), w')
             else (case b of
                     NotJson \<Rightarrow> (Inl NetworkError, w')
                   | Json t \<Rightarrow> (Inr (or_default t NO_SUMMARY), w')))"

record retry_config =
  retries :: nat
  minTimeout :: nat
  factor :: nat

definition RETRY_CONFIG :: retry_config where
  "RETRY_CONFIG = \<lparr>retries = 3, minTimeout = 2000, factor = 2\<rparr>"

text \<open>
  Modelled from the spec: the retry wrapper \<open>retry\<close> is the package p-retry,
  whose code is not among the sources.  Following section 4.3 of the spec, the
  operation is attempted up to \<open>maxAttempts\<close> times; an abort error stops at
  once and propagates; when every attempt has failed the last error propagates.
  The waiting between attempts changes no state of the model.  A policy of zero
  attempts, on which the spec is silent, yields \<open>NoAttempt\<close>.
\<close>

fun attempts :: "nat \<Rightarrow> ('s \<Rightarrow> (error + 'a) \<times> 's) \<Rightarrow> error \<Rightarrow> 's \<Rightarrow> (error + 'a) \<times> 's" where
  "attempts 0 operation lastError s = (Inl lastError, s)"
| "attempts (Suc n) operation lastError s =
     (case operation s of
        (Inr v, s') \<Rightarrow> (Inr v, s')
      | (Inl err, s') \<Rightarrow>
          if err = AbortError then (Inl AbortError, s')
          else attempts n operation err s')"

text \<open>
  Modelled from the spec: \<open>RetryPolicy.execute\<close> of section 4.3, the
  attempts above started with no error seen yet.
\<close>

definition execute :: "('s \<Rightarrow> (error + 'a) \<times> 's) \<Rightarrow> nat \<Rightarrow> 's \<Rightarrow> (error + 'a) \<times> 's" where
  "execute operation maxAttempts s = attempts maxAttempts operation NoAttempt s"

text \<open>
  Modelled from the spec: the call \<open>retry(operation, RETRY_CONFIG)\<close>, with the
  configured \<open>retries\<close> read as the spec's \<open>maxAttempts\<close>.
\<close>

definition retry :: "('s \<Rightarrow> (error + 'a) \<times> 's) \<Rightarrow> retry_config \<Rightarrow> 's \<Rightarrow> (error + 'a) \<times> 's" where
  "retry operation cfg s = execute operation (retries cfg) s"

text \<open>
  \<open>Math.floor(promptLength * TOKEN_PER_CHAR)\<close> with the coefficient 0.4: for the
  lengths that occur this is the integer quotient of \<open>2 * promptLength\<close> by 5.
\<close>

definition estimateTokens :: "item \<Rightarrow> nat" where
  "estimateTokens it = (2 * length (title it @ content it)) div 5"

text \<open>
  The body of the loop over \<open>mergedItems\<close> in \<open>updateFeed\<close>.  When the token
  budget would be exceeded the script calls \<open>delay\<close>, an identifier that the
  script neither defines nor imports: evaluating it throws a reference error, outside
  the inner \<open>try\<close>, before the counters are reset.
\<close>

definition summarizeItem :: "env \<Rightarrow> item list \<Rightarrow> item \<Rightarrow> world \<Rightarrow> (error + item) \<times> world" where
  "summarizeItem e newItemsForSummary it w =
     (let isNewItem = (\<exists>newItem \<in> set newItemsForSummary. link newItem = link it)
      in if isNewItem \<and> \<not> truthy (summary it) then
           (let estimatedTokens = estimateTokens it
            in if currentMinuteTokens w + estimatedTokens > 900000
               then (Inl ReferenceError, w)
               else (case retry (generateSummaryWithLimit e (title it) (content it))
                                RETRY_CONFIG w of
                       (Inr summary', w') \<Rightarrow>
                         (Inr (it\<lparr>summary := Some summary'\<rparr>),
                          w'\<lparr>currentMinuteTokens := currentMinuteTokens w' + estimatedTokens\<rparr>)
                     | (Inl err, w') \<Rightarrow>
                         (Inr (it\<lparr>summary := Some SUMMARY_FAILED\<rparr>), w')))
         else (Inr it, w))"

fun summarizeItems ::
    "env \<Rightarrow> item list \<Rightarrow> item list \<Rightarrow> item list \<Rightarrow> world \<Rightarrow> (error + item list) \<times> world" where
  "summarizeItems e newItemsForSummary [] itemsWithSummaries w = (Inr itemsWithSummaries, w)"
| "summarizeItems e newItemsForSummary (it # rest) itemsWithSummaries w =
     (case summarizeItem e newItemsForSummary it w of
        (Inl err, w') \<Rightarrow> (Inl err, w')
      | (Inr it', w') \<Rightarrow>
          summarizeItems e newItemsForSummary rest (itemsWithSummaries @ [it']) w')"

section \<open>updateFeed, updateAllFeeds, main\<close>

text \<open>The window check at the start of \<open>updateFeed\<close>.\<close>

definition resetWindow :: "int \<Rightarrow> world \<Rightarrow> world" where
  "resetWindow now w =
     (if now - lastResetTime w > 60 * 1000
      then w\<lparr>currentMinuteTokens := 0, lastResetTime := now\<rparr> else w)"

text \<open>
  \<open>updateFeed\<close>: the outer \<open>catch\<close> logs and re-throws, so the first error of the
  body is the result.
\<close>

definition updateFeed :: "env \<Rightarrow> config \<Rightarrow> string \<Rightarrow> world \<Rightarrow> (error + feed_data) \<times> world" where
  "updateFeed e cfg sourceUrl' w0 =
     (let (now, w1) = Date_now e w0;
          w2 = resetWindow now w1;
          oldItems = existingItems e sourceUrl' w2
      in case fetchRssFeed e sourceUrl' w2 of
           (Inl err, w3) \<Rightarrow> (Inl err, w3)
         | (Inr newFeed, w3) \<Rightarrow>
             (let (mergedItems, newItemsForSummary) =
                    mergeFeedItems oldItems (feedItems newFeed) (maxItemsPerFeed cfg)
              in case summarizeItems e newItemsForSummary mergedItems [] w3 of
                   (Inl err, w4) \<Rightarrow> (Inl err, w4)
                 | (Inr itemsWithSummaries, w4) \<Rightarrow>
                     (let (stamp, w5) = Date_now e w4;
                          updatedData =
                            \<lparr>sourceUrl = sourceUrl', dataTitle = feedTitle newFeed,
                             dataDescription = feedDescription newFeed,
                             dataLink = feedLink newFeed, items = itemsWithSummaries,
                             lastUpdated = stamp\<rparr>
                      in case saveFeedData e sourceUrl' updatedData w5 of
                           (Inl err, w6) \<Rightarrow> (Inl err, w6)
                         | (Inr u, w6) \<Rightarrow> (Inr updatedData, w6))))"

text \<open>The loop of \<open>updateAllFeeds\<close> on the object \<open>results\<close>.\<close>

fun updateSources ::
    "env \<Rightarrow> config \<Rightarrow> source list \<Rightarrow> (string \<rightharpoonup> bool) \<Rightarrow> world \<Rightarrow> (string \<rightharpoonup> bool) \<times> world" where
  "updateSources e cfg [] results w = (results, w)"
| "updateSources e cfg (src # rest) results w =
     (case updateFeed e cfg (url src) w of
        (Inr d, w') \<Rightarrow> updateSources e cfg rest (results(url src \<mapsto> True)) w'
      | (Inl err, w') \<Rightarrow> updateSources e cfg rest (results(url src \<mapsto> False)) w')"

definition updateAllFeeds :: "env \<Rightarrow> config \<Rightarrow> world \<Rightarrow> (error + (string \<rightharpoonup> bool)) \<times> world" where
  "updateAllFeeds e cfg w =
     (case sources cfg of
        None \<Rightarrow> (Inl TypeError, w)
      | Some srcs \<Rightarrow>
          (let (results, w') = updateSources e cfg srcs Map.empty w
           in (Inr results, w')))"

text \<open>\<open>main\<close> returns the exit code given to \<open>process.exit\<close>.\<close>

definition main :: "env \<Rightarrow> config \<Rightarrow> world \<Rightarrow> nat \<times> world" where
  "main e cfg w =
     (case updateAllFeeds e cfg w of
        (Inr results, w') \<Rightarrow> (0, w')
      | (Inl err, w') \<Rightarrow> (1, w'))"

section \<open>Auxiliary notions\<close>

text \<open>
  The two loops of \<open>mergeFeedItems\<close> on their own: the lookup built from the old
  items, and the state after the new items have been processed.
\<close>

definition old_map :: "item list \<Rightarrow> items_map" where
  "old_map oldItems = foldl addOld Map.empty oldItems"

definition new_state :: "items_map \<Rightarrow> item list \<Rightarrow> items_map \<times> item list" where
  "new_state m newItems = foldl addNew (m, []) newItems"

text \<open>Every entry of the lookup is stored under its own, non-empty link.\<close>

definition keyed :: "items_map \<Rightarrow> bool" where
  "keyed m = (\<forall>k v. m k = Some v \<longrightarrow> link v = Some k \<and> k \<noteq> [])"

text \<open>The lookup holds, under the key \<open>k\<close>, an item with the summary \<open>s\<close>.\<close>

definition holds_summary :: "items_map \<Rightarrow> string \<Rightarrow> string option \<Rightarrow> bool" where
  "holds_summary m k s = (\<exists>x. m k = Some x \<and> summary x = s)"


text \<open>
  Replacing an empty-string summary by a missing one, and the relation between a
  lookup and the lookup built after that replacement.
\<close>

definition forgetEmpty :: "item \<Rightarrow> item" where
  "forgetEmpty e = (if summary e = Some [] then e\<lparr>summary := None\<rparr> else e)"

definition sim :: "item option \<Rightarrow> item option \<Rightarrow> bool" where
  "sim a b = (case a of None \<Rightarrow> b = None
              | Some x \<Rightarrow> b = Some x \<or> b = Some (forgetEmpty x))"

text \<open>
  An operation instrumented with a counter of its invocations, and the state
  reached after \<open>k\<close> invocations of an operation.
\<close>

definition counted :: "('s \<Rightarrow> (error + 'a) \<times> 's) \<Rightarrow> 's \<times> nat \<Rightarrow> (error + 'a) \<times> ('s \<times> nat)" where
  "counted operation sc =
     (case sc of (s, c) \<Rightarrow> (case operation s of (r, s') \<Rightarrow> (r, (s', Suc c))))"

fun stateAfter :: "nat \<Rightarrow> ('s \<Rightarrow> (error + 'a) \<times> 's) \<Rightarrow> 's \<Rightarrow> 's" where
  "stateAfter 0 operation s = s"
| "stateAfter (Suc k) operation s = stateAfter k operation (snd (operation s))"

section \<open>Concrete inputs\<close>

text \<open>
  A quiet world: a service that always answers, a parser that always throws, no
  files, and a process that has just started.
\<close>

definition env0 :: env where
  "env0 = \<lparr>clock = (\<lambda>n. 0), respond = (\<lambda>n t c. Http 200 (Json (Some ''ok''))),
           parseURL = (\<lambda>n u. None), JSON_parse = (\<lambda>t. None), JSON_stringify = (\<lambda>d. []),
           getSourceFilePath = (\<lambda>u. u), writeOk = (\<lambda>p. True)\<rparr>"

definition world0 :: world where
  "world0 = \<lparr>currentMinuteTokens = 0, lastResetTime = 0, files = (\<lambda>p. Missing),
             clockReads = 0, apiCalls = 0, fetches = 0\<rparr>"

definition rawEntry :: "string \<Rightarrow> string \<Rightarrow> raw_item" where
  "rawEntry l c = \<lparr>rawTitle = None, rawLink = Some l, rawPubDate = None, rawIsoDate = None,
     rawContent = Some c, rawContentSnippet = None, rawCreator = None, rawEnclosure = None\<rparr>"

definition rawFeedOf :: "raw_item list \<Rightarrow> raw_feed" where
  "rawFeedOf rs = \<lparr>rawFeedTitle = None, rawFeedDescription = None, rawFeedLink = None,
     rawItems = rs\<rparr>"

definition cfg0 :: config where
  "cfg0 = \<lparr>sources = Some [\<lparr>url = ''u''\<rparr>], maxItemsPerFeed = 10\<rparr>"

text \<open>A feed whose single entry has a content of 2250003 characters.\<close>

definition envBig :: env where
  "envBig = env0\<lparr>parseURL :=
     \<lambda>n u. Some (rawFeedOf [rawEntry ''a'' (replicate 2250003 (CHR ''x''))])\<rparr>"

text \<open>Two sources, of which only the second can be fetched.\<close>

definition envSecond :: env where
  "envSecond = env0\<lparr>parseURL := \<lambda>n u. if u = ''b'' then Some (rawFeedOf []) else None\<rparr>"

definition cfgTwo :: config where
  "cfgTwo = \<lparr>sources = Some [\<lparr>url = ''a''\<rparr>, \<lparr>url = ''b''\<rparr>], maxItemsPerFeed = 10\<rparr>"

text \<open>
  Two new entries, and a service that answers the first request with status 429
  and every later request with a text.
\<close>

definition envMixed :: env where
  "envMixed = env0\<lparr>
     parseURL := \<lambda>n u. Some (rawFeedOf [rawEntry ''a'' ''one'', rawEntry ''b'' ''two'']),
     respond := \<lambda>n t c. if n = 0 then Http 429 NotJson else Http 200 (Json (Some ''ok''))\<rparr>"

text \<open>An operation that fails once and then signals the abort condition.\<close>

definition flaky :: "nat \<Rightarrow> (error + string) \<times> nat" where
  "flaky n = (if n = 1 then Inl AbortError else Inl NetworkError, Suc n)"

text \<open>Old and new items with a missing link, a repeated link and a cut-off entry.\<close>

definition exOld :: "item list" where
  "exOld = [mk [] (Some ''S0''), mk ''a'' (Some ''S1''), mk ''a'' (Some ''S2''),
            mk ''b'' (Some ''S3'')]"

definition exNew :: "item list" where
  "exNew = [mk [] None, mk ''a'' None, mk ''b'' None]"

section \<open>Evaluation on concrete inputs\<close>

lemmas merge_defs = mergeFeedItems_def addOld_def addNew_def has_link_def truthy_def key_def
  keep_def fromMap_def serializedItem_def js_or_def Let_def

lemmas eval_defs = merged_of_def needs_summary_of_def merge_defs mk_def

lemmas run_defs = updateFeed_def Date_now_def resetWindow_def existingItems_def loadFeedData_def
  fetchRssFeed_def saveFeedData_def serializeItem_def or_empty_def rawFeedOf_def rawEntry_def
  env0_def world0_def

section \<open>Properties of mergeFeedItems\<close>

subsection \<open>Keys of the lookup and length of the result\<close>

lemma has_link_key: "has_link it \<Longrightarrow> link it = Some (key it) \<and> key it \<noteq> []"
  by (auto simp: has_link_def key_def truthy_def split: option.splits)

lemma keyed_empty: "keyed Map.empty"
  by (simp add: keyed_def)

lemma keyed_addOld: "keyed m \<Longrightarrow> keyed (addOld m it)"
  using has_link_key [of it] by (auto simp: keyed_def addOld_def)

lemma keyed_foldl_addOld: "keyed m \<Longrightarrow> keyed (foldl addOld m xs)"
  by (induction xs arbitrary: m) (simp_all add: keyed_addOld)

lemma link_serializedItem [simp]: "link (serializedItem e it) = link it"
  by (simp add: serializedItem_def)

lemma key_serializedItem [simp]: "key (serializedItem e it) = key it"
  by (simp add: key_def)

lemma keyed_addNew: "keyed m \<Longrightarrow> keyed (fst (addNew (m, ns) it))"
  using has_link_key [of it] by (auto simp: keyed_def addNew_def Let_def)

lemma keyed_foldl_addNew: "keyed (fst st) \<Longrightarrow> keyed (fst (foldl addNew st xs))"
proof (induction xs arbitrary: st)
  case Nil
  then show ?case by simp
next
  case (Cons x xs)
  obtain m ns where st: "st = (m, ns)" by (cases st)
  with Cons.prems have "keyed (fst (addNew st x))" by (simp add: keyed_addNew)
  then show ?case using Cons.IH by simp
qed

lemma addNew_dom_mono: "k \<in> dom (fst st) \<Longrightarrow> k \<in> dom (fst (addNew st it))"
  by (cases st) (auto simp: addNew_def Let_def)

lemma addNew_dom_self: "has_link it \<Longrightarrow> key it \<in> dom (fst (addNew st it))"
  by (cases st) (auto simp: addNew_def Let_def)

lemma foldl_addNew_dom_mono: "k \<in> dom (fst st) \<Longrightarrow> k \<in> dom (fst (foldl addNew st xs))"
proof (induction xs arbitrary: st)
  case Nil
  then show ?case by simp
next
  case (Cons x xs)
  from Cons.prems have "k \<in> dom (fst (addNew st x))" by (rule addNew_dom_mono)
  then show ?case using Cons.IH by simp
qed

lemma foldl_addNew_dom:
  "it \<in> set xs \<Longrightarrow> has_link it \<Longrightarrow> key it \<in> dom (fst (foldl addNew st xs))"
proof (induction xs arbitrary: st)
  case Nil
  then show ?case by simp
next
  case (Cons x xs)
  show ?case
  proof (cases "it = x")
    case True
    with Cons.prems have "key it \<in> dom (fst (addNew st x))"
      by (simp add: addNew_dom_self)
    then have "key it \<in> dom (fst (foldl addNew (addNew st x) xs))"
      by (rule foldl_addNew_dom_mono)
    then show ?thesis by simp
  next
    case False
    with Cons.prems have "it \<in> set xs" by simp
    then have "key it \<in> dom (fst (foldl addNew (addNew st x) xs))"
      using Cons.prems(2) by (rule Cons.IH)
    then show ?thesis by simp
  qed
qed

lemma keep_dom: "keep m it = (has_link it \<and> key it \<in> dom m)"
  by (auto simp: keep_def)

lemma filter_keep_final:
  "filter (keep (fst (foldl addNew st xs))) xs = filter has_link xs"
proof (rule filter_cong [OF refl])
  fix it assume "it \<in> set xs"
  then show "keep (fst (foldl addNew st xs)) it = has_link it"
    using foldl_addNew_dom [of it xs st] by (auto simp: keep_dom)
qed

lemma merged_of_eq:
  "merged_of oldItems newItems maxItems =
     take maxItems (map (fromMap (fst (new_state (old_map oldItems) newItems)))
                        (filter has_link newItems))"
  by (simp add: merged_of_def mergeFeedItems_def Let_def new_state_def old_map_def
      filter_keep_final case_prod_beta)

lemma needs_summary_of_eq:
  "needs_summary_of oldItems newItems maxItems = snd (new_state (old_map oldItems) newItems)"
  by (simp add: needs_summary_of_def mergeFeedItems_def Let_def new_state_def old_map_def
      case_prod_beta)

lemma keyed_final: "keyed (fst (new_state (old_map oldItems) newItems))"
  unfolding new_state_def old_map_def
  by (rule keyed_foldl_addNew) (simp add: keyed_foldl_addOld keyed_empty)

lemma link_fromMap:
  "keyed m \<Longrightarrow> has_link it \<Longrightarrow> key it \<in> dom m \<Longrightarrow> link (fromMap m it) = link it"
  using has_link_key [of it] by (auto simp: fromMap_def keyed_def)

lemma map_link_merged:
  "map link (merged_of oldItems newItems maxItems) =
     take maxItems (map link (filter has_link newItems))"
proof -
  let ?m = "fst (new_state (old_map oldItems) newItems)"
  have "map link (map (fromMap ?m) (filter has_link newItems)) = map link (filter has_link newItems)"
    unfolding map_map
  proof (rule map_cong [OF refl])
    fix it assume "it \<in> set (filter has_link newItems)"
    then have "it \<in> set newItems" "has_link it" by auto
    then have "key it \<in> dom ?m"
      unfolding new_state_def by (rule foldl_addNew_dom)
    with keyed_final \<open>has_link it\<close> show "(link \<circ> fromMap ?m) it = link it"
      by (simp add: link_fromMap)
  qed
  then have "map link (take maxItems (map (fromMap ?m) (filter has_link newItems))) =
      take maxItems (map link (filter has_link newItems))"
    by (simp only: take_map [symmetric])
  then show ?thesis
    by (simp only: merged_of_eq)
qed

text \<open>
  Claim C3.  For all old items, new items and \<open>maxItems\<close>, the merged list has at
  most \<open>maxItems\<close> entries; its length is the minimum of \<open>maxItems\<close> and the
  number of new entries that have a link; and every merged entry has a link, so new
  entries without one are left out.
\<close>

theorem merged_length: "length (merged_of oldItems newItems maxItems) \<le> maxItems \<and>
   length (merged_of oldItems newItems maxItems) = min maxItems (length (filter has_link newItems)) \<and>
   (\<forall>m \<in> set (merged_of oldItems newItems maxItems). has_link m)"
proof -
  have len: "length (merged_of oldItems newItems maxItems) = min maxItems (length (filter has_link newItems))"
    using arg_cong [OF map_link_merged, of length] by (simp add: min.commute)
  have "\<forall>l \<in> set (map link (merged_of oldItems newItems maxItems)). truthy l"
    unfolding map_link_merged by (auto dest: in_set_takeD simp: has_link_def)
  then have "\<forall>m \<in> set (merged_of oldItems newItems maxItems). has_link m"
    by (simp add: has_link_def)
  with len show ?thesis by simp
qed

theorem merged_length_witness:
  "length (merged_of [] [mk ''x'' None, mk [] None, mk ''y'' None, mk ''z'' None] 2) = 2 \<and>
   list_all has_link (merged_of [] [mk ''x'' None, mk [] None, mk ''y'' None, mk ''z'' None] 2)"
  using merged_length [where oldItems = "[]" and maxItems = 2
      and newItems = "[mk ''x'' None, mk [] None, mk ''y'' None, mk ''z'' None]"]
  by (simp add: list_all_iff mk_def has_link_def truthy_def)

subsection \<open>Pairwise distinct links\<close>

text \<open>
  With pairwise distinct links each loop touches a key once, so the merged record
  of a new item is determined by the lookup built from the old items.
\<close>

lemma addOld_other: "k \<noteq> key it \<Longrightarrow> addOld m it k = m k"
  by (simp add: addOld_def)

lemma foldl_addOld_other:
  "k \<notin> key ` set (filter has_link xs) \<Longrightarrow> foldl addOld m xs k = m k"
proof (induction xs arbitrary: m)
  case Nil
  then show ?case by simp
next
  case (Cons x xs)
  then have "addOld m x k = m k" by (auto simp: addOld_def)
  moreover from Cons have "foldl addOld (addOld m x) xs k = addOld m x k"
    by (auto split: if_splits)
  ultimately show ?case by simp
qed

lemma distinct_key_filter:
  assumes "distinct (map link (filter has_link xs))"
  shows "distinct (map key (filter has_link xs))"
proof -
  have inj: "inj_on key (set (filter has_link xs))"
  proof (rule inj_onI)
    fix a b
    assume a: "a \<in> set (filter has_link xs)" and b: "b \<in> set (filter has_link xs)"
      and eq: "key a = key b"
    from a b have "link a = Some (key a)" "link b = Some (key b)"
      by (simp_all add: has_link_key)
    with eq have "link a = link b" by simp
    moreover from assms have "inj_on link (set (filter has_link xs))"
      by (simp only: distinct_map)
    ultimately show "a = b" using a b by (meson inj_onD)
  qed
  from assms have "distinct (filter has_link xs)"
    by (simp only: distinct_map)
  with inj show ?thesis by (simp only: distinct_map)
qed

lemma addOld_self: "has_link it \<Longrightarrow> addOld m it (key it) = Some it"
  by (simp add: addOld_def)

lemma old_map_lookup_distinct:
  "distinct (map key (filter has_link xs)) \<Longrightarrow> it \<in> set xs \<Longrightarrow> has_link it \<Longrightarrow>
     foldl addOld m xs (key it) = Some it"
proof (induction xs arbitrary: m)
  case Nil
  then show ?case by simp
next
  case (Cons x xs)
  show ?case
  proof (cases "it = x")
    case True
    with Cons.prems have "key it \<notin> key ` set (filter has_link xs)" by auto
    then have "foldl addOld (addOld m x) xs (key it) = addOld m x (key it)"
      by (rule foldl_addOld_other)
    with True Cons.prems(3) show ?thesis by (simp add: addOld_self)
  next
    case False
    with Cons.prems have "it \<in> set xs" by simp
    moreover from Cons.prems(1) have "distinct (map key (filter has_link xs))"
      by (simp split: if_splits)
    ultimately have "foldl addOld (addOld m x) xs (key it) = Some it"
      using Cons.prems(3) Cons.IH by blast
    then show ?thesis by simp
  qed
qed

lemma addNew_other: "k \<noteq> key it \<Longrightarrow> fst (addNew st it) k = fst st k"
  by (cases st) (simp add: addNew_def Let_def)

lemma addNew_no_link: "\<not> has_link it \<Longrightarrow> addNew st it = st"
  by (cases st) (simp add: addNew_def)

lemma foldl_addNew_other:
  "k \<notin> key ` set (filter has_link xs) \<Longrightarrow> fst (foldl addNew st xs) k = fst st k"
proof (induction xs arbitrary: st)
  case Nil
  then show ?case by simp
next
  case (Cons x xs)
  have "fst (addNew st x) k = fst st k"
  proof (cases "has_link x")
    case True
    with Cons.prems have "k \<noteq> key x" by auto
    then show ?thesis by (rule addNew_other)
  next
    case False
    then show ?thesis by (simp add: addNew_no_link)
  qed
  moreover from Cons have "fst (foldl addNew (addNew st x) xs) k = fst (addNew st x) k"
    by (auto split: if_splits)
  ultimately show ?case by simp
qed

lemma addNew_self:
  "has_link it \<Longrightarrow> fst (addNew st it) (key it) = Some (serializedItem (fst st (key it)) it)"
  by (cases st) (simp add: addNew_def Let_def)

lemma new_map_lookup_distinct:
  "distinct (map key (filter has_link xs)) \<Longrightarrow> it \<in> set xs \<Longrightarrow> has_link it \<Longrightarrow>
     fst (foldl addNew st xs) (key it) = Some (serializedItem (fst st (key it)) it)"
proof (induction xs arbitrary: st)
  case Nil
  then show ?case by simp
next
  case (Cons x xs)
  show ?case
  proof (cases "it = x")
    case True
    with Cons.prems have "key it \<notin> key ` set (filter has_link xs)" by auto
    then have "fst (foldl addNew (addNew st x) xs) (key it) = fst (addNew st x) (key it)"
      by (rule foldl_addNew_other)
    with True Cons.prems(3) show ?thesis by (simp add: addNew_self)
  next
    case False
    with Cons.prems have in_xs: "it \<in> set xs" by simp
    from Cons.prems(1) have d: "distinct (map key (filter has_link xs))"
      by (simp split: if_splits)
    have same: "fst (addNew st x) (key it) = fst st (key it)"
    proof (cases "has_link x")
      case True
      with Cons.prems(1) have "key x \<notin> key ` set (filter has_link xs)" by simp
      moreover from in_xs Cons.prems(3) have "key it \<in> key ` set (filter has_link xs)" by simp
      ultimately have "key it \<noteq> key x" by metis
      then show ?thesis by (rule addNew_other)
    next
      case False
      then show ?thesis by (simp add: addNew_no_link)
    qed
    have "fst (foldl addNew (addNew st x) xs) (key it) =
        Some (serializedItem (fst (addNew st x) (key it)) it)"
      using d in_xs Cons.prems(3) by (rule Cons.IH)
    with same show ?thesis by simp
  qed
qed

lemma merged_of_distinct:
  assumes "distinct (map link (filter has_link newItems))"
  shows "merged_of oldItems newItems maxItems =
     take maxItems (map (\<lambda>it. serializedItem (old_map oldItems (key it)) it)
                        (filter has_link newItems))"
proof -
  let ?m = "fst (new_state (old_map oldItems) newItems)"
  have d: "distinct (map key (filter has_link newItems))"
    using assms by (rule distinct_key_filter)
  have "map (fromMap ?m) (filter has_link newItems) =
      map (\<lambda>it. serializedItem (old_map oldItems (key it)) it) (filter has_link newItems)"
  proof (rule map_cong [OF refl])
    fix it assume "it \<in> set (filter has_link newItems)"
    then have "it \<in> set newItems" "has_link it" by auto
    with d have "?m (key it) = Some (serializedItem (old_map oldItems (key it)) it)"
      unfolding new_state_def using new_map_lookup_distinct [of newItems it "(old_map oldItems, [])"]
      by simp
    with \<open>has_link it\<close> show "fromMap ?m it = serializedItem (old_map oldItems (key it)) it"
      by (simp add: fromMap_def)
  qed
  then show ?thesis by (simp only: merged_of_eq)
qed

lemma serializedItem_self: "serializedItem (Some it) it = it"
  by (simp add: serializedItem_def js_or_def)

lemma foldl_addNew_fixed:
  "\<forall>y \<in> set ys. has_link y \<longrightarrow> m (key y) = Some y \<Longrightarrow> foldl addNew (m, ns) ys = (m, ns)"
proof (induction ys)
  case Nil
  then show ?case by simp
next
  case (Cons y ys)
  have "addNew (m, ns) y = (m, ns)"
  proof (cases "has_link y")
    case True
    with Cons.prems have "m (key y) = Some y" by simp
    then have "m(key y \<mapsto> y) = m" by (rule map_upd_triv)
    with True \<open>m (key y) = Some y\<close> show ?thesis
      by (simp add: addNew_def Let_def serializedItem_self)
  next
    case False
    then show ?thesis by (simp add: addNew_no_link)
  qed
  with Cons show ?case by simp
qed

text \<open>
  When the new entries that have a link have pairwise distinct links, so do the
  merged entries.
\<close>

lemma distinct_links_merged: "distinct (map link (filter has_link newItems)) \<Longrightarrow>
   distinct (map link (merged_of oldItems newItems maxItems))"
  by (simp only: map_link_merged distinct_take)

text \<open>
  Claim C2 fails on the code.  For two new entries with the same link and the
  titles T1 and T2, the merged list holds the record of the second entry twice:
  two entries share a link, and the first entry is lost.  The list of entries to
  summarize, built with the same lookup, holds the link once.
\<close>

theorem merged_links_repeated:
  "mergeFeedItems [] [(mk ''a'' None)\<lparr>title := ''T1''\<rparr>, (mk ''a'' None)\<lparr>title := ''T2''\<rparr>] 10 =
     ([(mk ''a'' None)\<lparr>title := ''T2''\<rparr>, (mk ''a'' None)\<lparr>title := ''T2''\<rparr>],
      [(mk ''a'' None)\<lparr>title := ''T1''\<rparr>]) \<and>
   \<not> distinct (map link (merged_of []
        [(mk ''a'' None)\<lparr>title := ''T1''\<rparr>, (mk ''a'' None)\<lparr>title := ''T2''\<rparr>] 10))"
  by (simp add: eval_defs)

text \<open>
  Claim C7, amended.  For a list whose entries all have a link, with pairwise
  distinct links, merging the list with itself as the new items, with \<open>maxItems\<close>
  at least its length, returns the list itself and nothing to summarize.
\<close>

theorem merge_idempotent:
  assumes links: "\<forall>it \<in> set xs. has_link it"
    and dist: "distinct (map link xs)"
    and len: "length xs \<le> maxItems"
  shows "mergeFeedItems xs xs maxItems = (xs, [])"
proof -
  from links have all: "filter has_link xs = xs" by simp
  with dist have d: "distinct (map key (filter has_link xs))"
    using distinct_key_filter [of xs] by simp
  let ?old = "foldl addOld Map.empty xs"
  have look: "\<forall>y \<in> set xs. has_link y \<longrightarrow> ?old (key y) = Some y"
    using d by (simp add: old_map_lookup_distinct)
  then have st: "foldl addNew (?old, []) xs = (?old, [])"
    by (rule foldl_addNew_fixed)
  have "filter (keep ?old) xs = xs"
    using look links by (simp add: keep_def)
  moreover have "map (fromMap ?old) xs = xs"
    using look links by (simp add: fromMap_def map_idI)
  ultimately show ?thesis
    using len by (simp add: mergeFeedItems_def st)
qed

theorem merge_idempotent_witness:
  "mergeFeedItems [mk ''a'' (Some ''S''), mk ''b'' None] [mk ''a'' (Some ''S''), mk ''b'' None] 5
     = ([mk ''a'' (Some ''S''), mk ''b'' None], [])"
  using merge_idempotent [where xs = "[mk ''a'' (Some ''S''), mk ''b'' None]" and maxItems = 5]
  by (simp add: mk_def has_link_def truthy_def)

text \<open>
  Claim C7 as stated fails: an entry with an empty link is lost when the list is
  merged with itself.
\<close>

theorem merge_drops_entry_without_link: "distinct (map link [mk [] None]) \<and> length [mk [] None] \<le> 1 \<and>
    mergeFeedItems [mk [] None] [mk [] None] 1 = ([], [])"
  by (simp add: eval_defs)

subsection \<open>Old summaries\<close>

text \<open>
  Once the lookup holds a truthy summary under a key, every later \<open>set\<close> for that
  key stores the same summary.
\<close>

lemma foldl_addOld_in:
  "foldl addOld m xs k = Some v \<Longrightarrow> v \<in> set xs \<or> m k = Some v"
proof (induction xs arbitrary: m)
  case Nil
  then show ?case by simp
next
  case (Cons x xs)
  from Cons.prems have "foldl addOld (addOld m x) xs k = Some v" by simp
  then have "v \<in> set xs \<or> addOld m x k = Some v" by (rule Cons.IH)
  then show ?case by (auto simp: addOld_def split: if_splits)
qed

lemma addOld_dom_mono: "k \<in> dom m \<Longrightarrow> k \<in> dom (addOld m it)"
  by (auto simp: addOld_def)

lemma foldl_addOld_dom_mono: "k \<in> dom m \<Longrightarrow> k \<in> dom (foldl addOld m xs)"
proof (induction xs arbitrary: m)
  case Nil
  then show ?case by simp
next
  case (Cons x xs)
  from Cons.prems have "k \<in> dom (addOld m x)" by (rule addOld_dom_mono)
  then show ?case using Cons.IH by simp
qed

lemma foldl_addOld_dom:
  "e \<in> set xs \<Longrightarrow> has_link e \<Longrightarrow> key e \<in> dom (foldl addOld m xs)"
proof (induction xs arbitrary: m)
  case Nil
  then show ?case by simp
next
  case (Cons x xs)
  show ?case
  proof (cases "e = x")
    case True
    with Cons.prems(2) have "key e \<in> dom (addOld m x)" by (simp add: addOld_self domIff)
    then have "key e \<in> dom (foldl addOld (addOld m x) xs)" by (rule foldl_addOld_dom_mono)
    then show ?thesis by simp
  next
    case False
    with Cons.prems have "e \<in> set xs" by simp
    then have "key e \<in> dom (foldl addOld (addOld m x) xs)"
      using Cons.prems(2) by (rule Cons.IH)
    then show ?thesis by simp
  qed
qed

lemma addNew_sticky:
  assumes "truthy s" "holds_summary (fst st) k s"
  shows "holds_summary (fst (addNew st it) ) k s"
proof (cases "has_link it \<and> key it = k")
  case True
  from assms(2) obtain x where x: "fst st k = Some x" "summary x = s"
    by (auto simp: holds_summary_def)
  with True assms(1) have "summary (serializedItem (fst st (key it)) it) = s"
    by (simp add: serializedItem_def js_or_def)
  moreover from True have "fst (addNew st it) k = Some (serializedItem (fst st (key it)) it)"
    using addNew_self [of it st] by simp
  ultimately show ?thesis by (simp add: holds_summary_def)
next
  case False
  then have "fst (addNew st it) k = fst st k"
    by (cases "has_link it") (auto simp: addNew_no_link addNew_other)
  with assms(2) show ?thesis by (simp add: holds_summary_def)
qed

lemma foldl_addNew_sticky:
  "truthy s \<Longrightarrow> holds_summary (fst st) k s \<Longrightarrow> holds_summary (fst (foldl addNew st xs)) k s"
proof (induction xs arbitrary: st)
  case Nil
  then show ?case by simp
next
  case (Cons x xs)
  from Cons.prems have "holds_summary (fst (addNew st x)) k s" by (rule addNew_sticky)
  with Cons.prems(1) have "holds_summary (fst (foldl addNew (addNew st x) xs)) k s"
    by (rule Cons.IH)
  then show ?case by simp
qed

text \<open>
  Claim C1, amended.  Let an old entry have a link and a non-empty summary, and let
  every old entry with that link carry that same summary.  If a new entry with the
  same link and no summary is among the first \<open>maxItems\<close> new entries that have a
  link, then the merged list contains an entry with that link whose summary is the
  old summary.
\<close>

theorem old_summary_preserved:
  assumes e: "e \<in> set oldItems" "has_link e" "truthy (summary e)"
    and same: "\<forall>e' \<in> set oldItems. link e' = link e \<longrightarrow> summary e' = summary e"
    and f: "f \<in> set (take maxItems (filter has_link newItems))" "link f = link e"
      "\<not> truthy (summary f)"
  shows "\<exists>m \<in> set (merged_of oldItems newItems maxItems). link m = link e \<and> summary m = summary e"
proof -
  let ?old = "old_map oldItems"
  let ?fin = "fst (new_state ?old newItems)"
  from e have "key e \<in> dom ?old"
    unfolding old_map_def by (simp add: foldl_addOld_dom)
  then obtain e' where e': "?old (key e) = Some e'" by auto
  then have "e' \<in> set oldItems"
    unfolding old_map_def using foldl_addOld_in [of Map.empty oldItems "key e" e'] by simp
  moreover have "keyed ?old"
    unfolding old_map_def by (simp add: keyed_foldl_addOld keyed_empty)
  with e' have "link e' = Some (key e)" by (simp add: keyed_def)
  with e(2) have "link e' = link e" by (simp add: has_link_key)
  ultimately have "summary e' = summary e" using same by simp
  with e' have "holds_summary (fst (?old, [])) (key e) (summary e)"
    by (simp add: holds_summary_def)
  with e(3) have "holds_summary ?fin (key e) (summary e)"
    unfolding new_state_def by (rule foldl_addNew_sticky)
  then obtain x where x: "?fin (key e) = Some x" "summary x = summary e"
    by (auto simp: holds_summary_def)
  from f(1) have fin: "f \<in> set (filter has_link newItems)" by (rule in_set_takeD)
  then have hf: "has_link f" by simp
  from f(2) have kf: "key f = key e" by (simp add: key_def)
  with hf x have fm: "fromMap ?fin f = x" by (simp add: fromMap_def)
  from keyed_final x(1) have "link x = Some (key e)" by (simp add: keyed_def)
  with e(2) have "link x = link e" by (simp add: has_link_key)
  moreover have "x \<in> set (merged_of oldItems newItems maxItems)"
  proof -
    have "fromMap ?fin f \<in> fromMap ?fin ` set (take maxItems (filter has_link newItems))"
      using f(1) by (rule imageI)
    then show ?thesis by (simp add: merged_of_eq take_map fm)
  qed
  ultimately show ?thesis using x(2) by blast
qed

theorem old_summary_preserved_witness:
  "\<exists>m \<in> set (merged_of [mk ''a'' (Some ''S'')] [mk ''a'' None, mk ''b'' None] 10).
      link m = Some ''a'' \<and> summary m = Some ''S''"
  using old_summary_preserved [where e = "mk ''a'' (Some ''S'')" and oldItems = "[mk ''a'' (Some ''S'')]"
      and f = "mk ''a'' None" and maxItems = 10 and newItems = "[mk ''a'' None, mk ''b'' None]"]
  by (simp add: mk_def has_link_def truthy_def)

text \<open>
  Claim C1 as stated fails on one input in three ways: for an old entry with an
  empty link, for an old entry whose link a later old entry repeats with another
  summary, and for an old entry whose new counterpart lies beyond \<open>maxItems\<close>.
\<close>

theorem old_summary_lost:
  "merged_of exOld exNew 1 = [mk ''a'' (Some ''S2'')] \<and>
   (mk [] (Some ''S0'') \<in> set exOld \<and> mk [] None \<in> set exNew \<and>
      \<not> (\<exists>m \<in> set (merged_of exOld exNew 1). link m = Some [] \<and> summary m = Some ''S0'')) \<and>
   (mk ''a'' (Some ''S1'') \<in> set exOld \<and> mk ''a'' None \<in> set exNew \<and>
      \<not> (\<exists>m \<in> set (merged_of exOld exNew 1). link m = Some ''a'' \<and> summary m = Some ''S1'')) \<and>
   (mk ''b'' (Some ''S3'') \<in> set exOld \<and> mk ''b'' None \<in> set exNew \<and>
      \<not> (\<exists>m \<in> set (merged_of exOld exNew 1). link m = Some ''b'' \<and> summary m = Some ''S3''))"
  by (simp add: exOld_def exNew_def eval_defs)

subsection \<open>Empty old summaries\<close>

text \<open>
  Replacing the empty summaries of the old items by missing ones changes nothing
  in the result of the merge.
\<close>

lemma has_link_forgetEmpty [simp]: "has_link (forgetEmpty e) = has_link e"
  by (simp add: forgetEmpty_def has_link_def)

lemma key_forgetEmpty [simp]: "key (forgetEmpty e) = key e"
  by (simp add: forgetEmpty_def key_def)

lemma sim_refl: "sim a a"
  by (simp add: sim_def split: option.splits)

lemma sim_None: "sim a b \<Longrightarrow> (a = None) = (b = None)"
  by (auto simp: sim_def split: option.splits)

lemma serializedItem_sim: "sim a b \<Longrightarrow> serializedItem b it = serializedItem a it"
  by (auto simp: sim_def serializedItem_def js_or_def forgetEmpty_def truthy_def
      split: option.splits)

lemma addOld_sim:
  "\<forall>k. sim (m k) (m' k) \<Longrightarrow> \<forall>k. sim (addOld m e k) (addOld m' (forgetEmpty e) k)"
proof
  fix k
  assume a: "\<forall>k. sim (m k) (m' k)"
  show "sim (addOld m e k) (addOld m' (forgetEmpty e) k)"
  proof (cases "has_link e \<and> k = key e")
    case True
    then show ?thesis by (simp add: addOld_def sim_def)
  next
    case False
    then have "addOld m e k = m k" "addOld m' (forgetEmpty e) k = m' k"
      by (auto simp: addOld_def)
    with a show ?thesis by simp
  qed
qed

lemma foldl_addOld_sim:
  "\<forall>k. sim (m k) (m' k) \<Longrightarrow>
     \<forall>k. sim (foldl addOld m xs k) (foldl addOld m' (map forgetEmpty xs) k)"
proof (induction xs arbitrary: m m')
  case Nil
  then show ?case by simp
next
  case (Cons x xs)
  from Cons.prems have "\<forall>k. sim (addOld m x k) (addOld m' (forgetEmpty x) k)"
    by (rule addOld_sim)
  then show ?case using Cons.IH by simp
qed

lemma addNew_sim:
  assumes "\<forall>k. sim (m k) (m' k)" "\<forall>k \<in> S. m k = m' k"
  shows "snd (addNew (m, ns) it) = snd (addNew (m', ns) it) \<and>
         (\<forall>k. sim (fst (addNew (m, ns) it) k) (fst (addNew (m', ns) it) k)) \<and>
         (\<forall>k \<in> S \<union> (if has_link it then {key it} else {}).
             fst (addNew (m, ns) it) k = fst (addNew (m', ns) it) k)"
proof (cases "has_link it")
  case True
  from assms(1) have s: "sim (m (key it)) (m' (key it))" by simp
  then have ser: "serializedItem (m' (key it)) it = serializedItem (m (key it)) it"
    by (rule serializedItem_sim)
  from s have none: "(m (key it) = None) = (m' (key it) = None)" by (rule sim_None)
  from True ser none assms show ?thesis
    by (auto simp: addNew_def Let_def sim_refl)
next
  case False
  with assms show ?thesis by (simp add: addNew_no_link)
qed

lemma foldl_addNew_sim:
  "\<forall>k. sim (m k) (m' k) \<Longrightarrow> \<forall>k \<in> S. m k = m' k \<Longrightarrow>
     snd (foldl addNew (m, ns) xs) = snd (foldl addNew (m', ns) xs) \<and>
     (\<forall>k \<in> S \<union> key ` set (filter has_link xs).
         fst (foldl addNew (m, ns) xs) k = fst (foldl addNew (m', ns) xs) k)"
proof (induction xs arbitrary: m m' ns S)
  case Nil
  then show ?case by simp
next
  case (Cons x xs)
  let ?S = "S \<union> (if has_link x then {key x} else {})"
  obtain m1 ns1 where st1: "addNew (m, ns) x = (m1, ns1)" by (cases "addNew (m, ns) x")
  obtain m2 ns2 where st2: "addNew (m', ns) x = (m2, ns2)" by (cases "addNew (m', ns) x")
  from addNew_sim [OF Cons.prems, of ns x] st1 st2
  have "ns1 = ns2" "\<forall>k. sim (m1 k) (m2 k)" "\<forall>k \<in> ?S. m1 k = m2 k"
    by simp_all
  from Cons.IH [OF this(2,3), of ns1] \<open>ns1 = ns2\<close>
  have "snd (foldl addNew (m1, ns1) xs) = snd (foldl addNew (m2, ns2) xs) \<and>
     (\<forall>k \<in> ?S \<union> key ` set (filter has_link xs).
         fst (foldl addNew (m1, ns1) xs) k = fst (foldl addNew (m2, ns2) xs) k)"
    by simp
  then show ?case by (auto simp: st1 st2)
qed

lemma mergeFeedItems_forgetEmpty:
  "mergeFeedItems (map forgetEmpty oldItems) newItems maxItems =
   mergeFeedItems oldItems newItems maxItems"
proof -
  let ?a = "old_map oldItems" and ?b = "old_map (map forgetEmpty oldItems)"
  let ?fa = "new_state ?a newItems" and ?fb = "new_state ?b newItems"
  have "\<forall>k. sim (?a k) (?b k)"
    unfolding old_map_def by (rule foldl_addOld_sim) (simp add: sim_def)
  then have both: "snd ?fa = snd ?fb \<and>
     (\<forall>k \<in> {} \<union> key ` set (filter has_link newItems). fst ?fa k = fst ?fb k)"
    unfolding new_state_def by (rule foldl_addNew_sim) simp
  have "map (fromMap (fst ?fa)) (filter has_link newItems) =
        map (fromMap (fst ?fb)) (filter has_link newItems)"
  proof (rule map_cong [OF refl])
    fix it assume "it \<in> set (filter has_link newItems)"
    with both have "fst ?fa (key it) = fst ?fb (key it)" by blast
    then show "fromMap (fst ?fa) it = fromMap (fst ?fb) it" by (simp add: fromMap_def)
  qed
  then have "merged_of (map forgetEmpty oldItems) newItems maxItems =
      merged_of oldItems newItems maxItems"
    by (simp only: merged_of_eq)
  moreover from both have "needs_summary_of (map forgetEmpty oldItems) newItems maxItems =
      needs_summary_of oldItems newItems maxItems"
    by (simp only: needs_summary_of_eq)
  ultimately show ?thesis
    by (simp add: merged_of_def needs_summary_of_def prod_eq_iff)
qed

lemma old_map_in:
  "old_map oldItems k = Some v \<Longrightarrow> v \<in> set oldItems \<and> link v = Some k"
proof -
  assume a: "old_map oldItems k = Some v"
  then have "v \<in> set oldItems"
    unfolding old_map_def using foldl_addOld_in [of Map.empty oldItems k v] by simp
  moreover have "keyed (old_map oldItems)"
    unfolding old_map_def by (simp add: keyed_foldl_addOld keyed_empty)
  with a have "link v = Some k" by (simp add: keyed_def)
  ultimately show ?thesis by simp
qed

text \<open>
  Claim C9, amended.  Let an old entry have the empty string as its summary, let no
  old entry with its link have a non-empty summary, and let the new entries that
  have a link have pairwise distinct links.  Then for a new entry with that link,
  every merged record with the link is the new entry itself, with its own summary
  (possibly none) and not the empty string; and the new entry is in the merged
  list when it has a link and lies within the first \<open>maxItems\<close> new entries that
  have one.
\<close>

theorem empty_summary_is_absent:
  assumes e: "e \<in> set oldItems" "summary e = Some []"
    and old: "\<forall>e' \<in> set oldItems. link e' = link e \<longrightarrow> \<not> truthy (summary e')"
    and f: "f \<in> set newItems" "link f = link e"
    and dnew: "distinct (map link (filter has_link newItems))"
  shows "(\<forall>m \<in> set (merged_of oldItems newItems maxItems). link m = link f \<longrightarrow> m = f) \<and>
         (has_link f \<and> f \<in> set (take maxItems (filter has_link newItems)) \<longrightarrow>
            f \<in> set (merged_of oldItems newItems maxItems))"
proof -
  let ?ser = "\<lambda>it. serializedItem (old_map oldItems (key it)) it"
  have merged: "merged_of oldItems newItems maxItems =
      map ?ser (take maxItems (filter has_link newItems))"
    by (simp only: merged_of_distinct [OF dnew] take_map)
  have self: "?ser f = f" if hl: "has_link f"
  proof (cases "old_map oldItems (key f)")
    case None
    then show ?thesis by (simp add: serializedItem_def js_or_def truthy_def)
  next
    case (Some e')
    then have "e' \<in> set oldItems" "link e' = Some (key f)" by (simp_all add: old_map_in)
    with hl f(2) have "link e' = link e" by (simp add: has_link_key)
    with \<open>e' \<in> set oldItems\<close> old have "\<not> truthy (summary e')" by blast
    with Some show ?thesis by (simp add: serializedItem_def js_or_def)
  qed
  have inj: "inj_on link (set (filter has_link newItems))"
    using dnew by (simp only: distinct_map)
  have one: "m = f" if m: "m \<in> set (merged_of oldItems newItems maxItems)" and l: "link m = link f" for m
  proof -
    from m obtain g where g: "g \<in> set (take maxItems (filter has_link newItems))" "m = ?ser g"
      unfolding merged by auto
    from g(1) have gin: "g \<in> set (filter has_link newItems)" by (rule in_set_takeD)
    from g(2) l have lg: "link g = link f" by simp
    with gin have "has_link f" by (simp add: has_link_def)
    with f(1) have "f \<in> set (filter has_link newItems)" by simp
    with inj gin lg have "g = f" by (meson inj_onD)
    with g(2) \<open>has_link f\<close> self show ?thesis by simp
  qed
  have two: "f \<in> set (merged_of oldItems newItems maxItems)"
    if "has_link f" "f \<in> set (take maxItems (filter has_link newItems))"
  proof -
    from that(2) have "?ser f \<in> ?ser ` set (take maxItems (filter has_link newItems))"
      by (rule imageI)
    with that(1) self show ?thesis unfolding merged by simp
  qed
  from one two show ?thesis by blast
qed

theorem empty_summary_is_absent_witness:
  "mk ''a'' (Some ''F'') \<in> set (merged_of [mk ''a'' (Some [])] [mk ''a'' (Some ''F''), mk ''b'' None] 10)"
  using empty_summary_is_absent [where e = "mk ''a'' (Some [])" and oldItems = "[mk ''a'' (Some [])]"
      and f = "mk ''a'' (Some ''F'')" and newItems = "[mk ''a'' (Some ''F''), mk ''b'' None]"
      and maxItems = 10]
  by (simp add: mk_def has_link_def truthy_def)

text \<open>
  Claim C9 as stated fails.  When a second new entry repeats the link, it gets the
  summary of the first new entry and not its own (none); when a later old entry
  with the link has a non-empty summary, the merged record gets that summary.
\<close>

theorem empty_summary_not_always_absent:
  "merged_of [mk ''a'' (Some [])] [mk ''a'' (Some ''F''), mk ''a'' None] 10 =
     [mk ''a'' (Some ''F''), mk ''a'' (Some ''F'')] \<and>
   summary (mk ''a'' None) = None \<and>
   merged_of [mk ''a'' (Some []), mk ''a'' (Some ''S'')] [mk ''a'' None] 10 = [mk ''a'' (Some ''S'')]"
  by (simp add: eval_defs)

section \<open>The retry policy\<close>

lemma counted_apply:
  "counted operation (s, c) = (fst (operation s), snd (operation s), Suc c)"
  by (simp add: counted_def case_prod_beta)

lemma attempts_counted_bound:
  "snd (snd (attempts n (counted operation) lastError (s, c))) \<le> c + n"
proof (induction n arbitrary: lastError s c)
  case 0
  then show ?case by simp
next
  case (Suc n)
  obtain r s' where op: "operation s = (r, s')" by (cases "operation s")
  show ?case
  proof (cases r)
    case (Inl err)
    show ?thesis
    proof (cases "err = AbortError")
      case True
      with op Inl show ?thesis by (simp add: counted_apply)
    next
      case False
      have "snd (snd (attempts n (counted operation) err (s', Suc c))) \<le> Suc c + n"
        by (rule Suc.IH)
      with op Inl False show ?thesis by (simp add: counted_apply)
    qed
  next
    case (Inr v)
    with op show ?thesis by (simp add: counted_apply)
  qed
qed

lemma attempts_abort:
  "k < n \<Longrightarrow>
   \<forall>i<k. \<exists>err. fst (operation (stateAfter i operation s)) = Inl err \<and> err \<noteq> AbortError \<Longrightarrow>
   fst (operation (stateAfter k operation s)) = Inl AbortError \<Longrightarrow>
   attempts n (counted operation) lastError (s, c) =
     (Inl AbortError, stateAfter (Suc k) operation s, c + Suc k)"
proof (induction k arbitrary: n s c lastError)
  case 0
  then obtain n' where n: "n = Suc n'" by (cases n) auto
  obtain r s' where op: "operation s = (r, s')" by (cases "operation s")
  with 0 have "r = Inl AbortError" by simp
  with op n show ?case by (simp add: counted_apply)
next
  case (Suc k)
  then obtain n' where n: "n = Suc n'" by (cases n) auto
  obtain r s' where op: "operation s = (r, s')" by (cases "operation s")
  from Suc.prems(2) have "\<exists>err. fst (operation (stateAfter 0 operation s)) = Inl err \<and> err \<noteq> AbortError"
    by blast
  with op obtain err where r: "r = Inl err" "err \<noteq> AbortError" by auto
  have later: "\<forall>i<k. \<exists>err. fst (operation (stateAfter i operation s')) = Inl err \<and> err \<noteq> AbortError"
  proof (intro allI impI)
    fix i assume "i < k"
    then have "Suc i < Suc k" by simp
    with Suc.prems(2) have "\<exists>err. fst (operation (stateAfter (Suc i) operation s)) = Inl err \<and> err \<noteq> AbortError"
      by blast
    with op show "\<exists>err. fst (operation (stateAfter i operation s')) = Inl err \<and> err \<noteq> AbortError"
      by simp
  qed
  from Suc.prems(3) op have last: "fst (operation (stateAfter k operation s')) = Inl AbortError"
    by simp
  from Suc.prems(1) n have "k < n'" by simp
  from Suc.IH [OF this later last, of err "Suc c"]
  have "attempts n' (counted operation) err (s', Suc c) =
      (Inl AbortError, stateAfter (Suc k) operation s', Suc c + Suc k)" .
  with op r n show ?case by (simp add: counted_apply)
qed

text \<open>
  Claim C4.  For every operation and every state, the retry wrapper invokes the
  operation at most \<open>maxAttempts\<close> times, and at most 3 times under the
  configured policy.  If the attempts before attempt \<open>k + 1\<close> fail with errors
  other than the abort error and attempt \<open>k + 1\<close> signals the abort error, the
  operation is invoked exactly \<open>k + 1\<close> times and the abort error is the result.
\<close>

theorem retry_bound:
  "snd (snd (execute (counted operation) maxAttempts (s, c))) \<le> c + maxAttempts \<and>
   snd (snd (retry (counted operation) RETRY_CONFIG (s, c))) \<le> c + 3 \<and>
   (k < maxAttempts \<and>
    (\<forall>i<k. \<exists>err. fst (operation (stateAfter i operation s)) = Inl err \<and> err \<noteq> AbortError) \<and>
    fst (operation (stateAfter k operation s)) = Inl AbortError \<longrightarrow>
      execute (counted operation) maxAttempts (s, c) =
        (Inl AbortError, stateAfter (Suc k) operation s, c + Suc k))"
proof -
  have "snd (snd (retry (counted operation) RETRY_CONFIG (s, c))) \<le> c + 3"
    using attempts_counted_bound [of 3 operation NoAttempt s c]
    by (simp add: retry_def execute_def RETRY_CONFIG_def)
  moreover have "snd (snd (execute (counted operation) maxAttempts (s, c))) \<le> c + maxAttempts"
    by (simp only: execute_def attempts_counted_bound)
  moreover have "k < maxAttempts \<and>
    (\<forall>i<k. \<exists>err. fst (operation (stateAfter i operation s)) = Inl err \<and> err \<noteq> AbortError) \<and>
    fst (operation (stateAfter k operation s)) = Inl AbortError \<longrightarrow>
      execute (counted operation) maxAttempts (s, c) =
        (Inl AbortError, stateAfter (Suc k) operation s, c + Suc k)"
    unfolding execute_def using attempts_abort [of k maxAttempts operation s NoAttempt c] by blast
  ultimately show ?thesis by blast
qed

theorem retry_bound_witness:
  "execute (counted flaky) 3 (0, 0) = (Inl AbortError, 2, 2) \<and>
   snd (snd (retry (counted flaky) RETRY_CONFIG (5, 0))) = 3"
proof -
  have a: "(1::nat) < 3 \<and>
      (\<forall>i<1. \<exists>err. fst (flaky (stateAfter i flaky 0)) = Inl err \<and> err \<noteq> AbortError) \<and>
      fst (flaky (stateAfter 1 flaky 0)) = Inl AbortError"
    by (simp add: flaky_def)
  from retry_bound [of flaky 3 0 0 1] a
  have "execute (counted flaky) 3 (0, 0) = (Inl AbortError, stateAfter (Suc 1) flaky 0, 0 + Suc 1)"
    by blast
  moreover have "stateAfter (Suc 1) flaky 0 = 2" by (simp add: flaky_def)
  moreover have "snd (snd (retry (counted flaky) RETRY_CONFIG (5, 0))) = 3"
    by (simp add: retry_def execute_def RETRY_CONFIG_def counted_apply flaky_def numeral_3_eq_3)
  ultimately show ?thesis by simp
qed

section \<open>Summaries in updateFeed\<close>

lemma summarizeItem_error:
  "summarizeItem e news it w = (Inl x, w') \<Longrightarrow> x = ReferenceError \<and> w' = w"
  by (auto simp: summarizeItem_def Let_def split: if_splits prod.splits sum.splits)

lemma summarizeItems_error:
  "summarizeItems e news xs acc w = (Inl x, w') \<Longrightarrow> x = ReferenceError"
proof (induction xs arbitrary: acc w)
  case Nil
  then show ?case by simp
next
  case (Cons it rest)
  obtain r w1 where step: "summarizeItem e news it w = (r, w1)"
    by (cases "summarizeItem e news it w")
  show ?case
  proof (cases r)
    case (Inl err)
    with step Cons.prems have "err = x" by simp
    with step Inl show ?thesis using summarizeItem_error by blast
  next
    case (Inr it')
    with step Cons.prems have "summarizeItems e news rest (acc @ [it']) w1 = (Inl x, w')"
      by simp
    then show ?thesis by (rule Cons.IH)
  qed
qed

lemma summarizeItems_append:
  "summarizeItems e news (xs @ ys) acc w =
     (case summarizeItems e news xs acc w of
        (Inl err, w') \<Rightarrow> (Inl err, w')
      | (Inr acc', w') \<Rightarrow> summarizeItems e news ys acc' w')"
proof (induction xs arbitrary: acc w)
  case Nil
  then show ?case by simp
next
  case (Cons it rest)
  then show ?case by (simp split: prod.splits sum.splits)
qed

lemma summarizeItems_keeps:
  "summarizeItems e news xs acc w = (Inr out, w') \<Longrightarrow>
     \<exists>ys. out = acc @ ys \<and> length ys = length xs"
proof (induction xs arbitrary: acc w)
  case Nil
  then show ?case by simp
next
  case (Cons it rest)
  obtain r w1 where step: "summarizeItem e news it w = (r, w1)"
    by (cases "summarizeItem e news it w")
  show ?case
  proof (cases r)
    case (Inl err)
    with step Cons.prems show ?thesis by simp
  next
    case (Inr it')
    with step Cons.prems have "summarizeItems e news rest (acc @ [it']) w1 = (Inr out, w')"
      by simp
    then obtain ys where "out = (acc @ [it']) @ ys \<and> length ys = length rest"
      using Cons.IH by blast
    then have "out = acc @ (it' # ys) \<and> length (it' # ys) = length (it # rest)" by simp
    then show ?thesis by blast
  qed
qed

lemma summarizeItem_fallback:
  assumes "\<exists>n \<in> set news. link n = link it" "\<not> truthy (summary it)"
    and "currentMinuteTokens w + estimateTokens it \<le> 900000"
    and "retry (generateSummaryWithLimit e (title it) (content it)) RETRY_CONFIG w = (Inl err, w')"
  shows "summarizeItem e news it w = (Inr (it\<lparr>summary := Some SUMMARY_FAILED\<rparr>), w')"
  using assms by (simp add: summarizeItem_def Let_def)

lemma updateFeed_error:
  "updateFeed e cfg u w = (Inl x, w') \<Longrightarrow> x \<in> {FetchError, ReferenceError, PersistError}"
proof -
  assume a: "updateFeed e cfg u w = (Inl x, w')"
  have s: "\<And>news xs acc w1 y w2. summarizeItems e news xs acc w1 = (Inl y, w2) \<Longrightarrow> y = ReferenceError"
    by (rule summarizeItems_error)
  from a show ?thesis
    by (auto simp: updateFeed_def Let_def fetchRssFeed_def saveFeedData_def
        split: prod.splits sum.splits option.splits if_splits dest: s)
qed

lemma summarizeItems_placeholder:
  assumes pre: "summarizeItems e news pre acc w = (Inr acc1, w1)"
    and needs: "\<exists>n \<in> set news. link n = link it" "\<not> truthy (summary it)"
    and budget: "currentMinuteTokens w1 + estimateTokens it \<le> 900000"
    and fails: "retry (generateSummaryWithLimit e (title it) (content it)) RETRY_CONFIG w1 = (Inl err, w2)"
  shows "summarizeItems e news (pre @ it # post) acc w =
           summarizeItems e news post (acc1 @ [it\<lparr>summary := Some SUMMARY_FAILED\<rparr>]) w2"
proof -
  from needs budget fails
  have step: "summarizeItem e news it w1 = (Inr (it\<lparr>summary := Some SUMMARY_FAILED\<rparr>), w2)"
    by (rule summarizeItem_fallback)
  show ?thesis
    by (simp add: summarizeItems_append pre step)
qed

text \<open>
  Claim C6.  Let the update of a source fetch the feed, and let the loop over the
  merged items reach an entry that needs a summary, within the token budget, for
  which the retried generation fails with any error.  Then the entry carries the
  fixed placeholder summary and the loop goes on with the entries after it.  If
  the loop completes, its result has one entry per merged item, the placeholder
  entry at the position of the failed one; the update then returns a snapshot with
  exactly these items when the file can be written, and fails with the save error
  otherwise.  If the loop stops at a later entry, the update fails with the
  reference error of the budget branch.  In every snapshot the update returns,
  the entry stands at its position with the placeholder summary.
\<close>

theorem failed_summary_placeholder:
  assumes clock: "Date_now e w = (now, w1)"
    and fetch: "fetchRssFeed e u (resetWindow now w1) = (Inr newFeed, w3)"
    and merge: "mergeFeedItems (existingItems e u (resetWindow now w1)) (feedItems newFeed)
                  (maxItemsPerFeed cfg) = (pre @ it # post, news)"
    and pre: "summarizeItems e news pre [] w3 = (Inr acc1, w4)"
    and needs: "\<exists>n \<in> set news. link n = link it" "\<not> truthy (summary it)"
    and budget: "currentMinuteTokens w4 + estimateTokens it \<le> 900000"
    and fails: "retry (generateSummaryWithLimit e (title it) (content it)) RETRY_CONFIG w4 = (Inl err, w5)"
  shows "(\<forall>out w6.
            summarizeItems e news post (acc1 @ [it\<lparr>summary := Some SUMMARY_FAILED\<rparr>]) w5 = (Inr out, w6) \<longrightarrow>
              length out = length (pre @ it # post) \<and>
              out ! length pre = it\<lparr>summary := Some SUMMARY_FAILED\<rparr> \<and>
              (writeOk e (getSourceFilePath e u) \<longrightarrow>
                 (\<exists>d w'. updateFeed e cfg u w = (Inr d, w') \<and> items d = out)) \<and>
              (\<not> writeOk e (getSourceFilePath e u) \<longrightarrow>
                 fst (updateFeed e cfg u w) = Inl PersistError)) \<and>
         (\<forall>x w6.
            summarizeItems e news post (acc1 @ [it\<lparr>summary := Some SUMMARY_FAILED\<rparr>]) w5 = (Inl x, w6) \<longrightarrow>
              updateFeed e cfg u w = (Inl ReferenceError, w6)) \<and>
         (\<forall>d w'. updateFeed e cfg u w = (Inr d, w') \<longrightarrow>
            length (items d) = length (pre @ it # post) \<and>
            items d ! length pre = it\<lparr>summary := Some SUMMARY_FAILED\<rparr>)"
proof -
  let ?ph = "it\<lparr>summary := Some SUMMARY_FAILED\<rparr>"
  let ?rest = "summarizeItems e news post (acc1 @ [?ph]) w5"
  have loop: "summarizeItems e news (pre @ it # post) [] w3 = ?rest"
    using pre needs budget fails by (rule summarizeItems_placeholder)
  from pre obtain ps where ps: "acc1 = [] @ ps" "length ps = length pre"
    using summarizeItems_keeps by blast
  have shape: "length out = length (pre @ it # post) \<and> out ! length pre = ?ph"
    if "?rest = (Inr out, w6)" for out w6
  proof -
    from that obtain ys where "out = (acc1 @ [?ph]) @ ys \<and> length ys = length post"
      using summarizeItems_keeps by blast
    with ps show ?thesis by (simp add: nth_append)
  qed
  have ok: "(writeOk e (getSourceFilePath e u) \<longrightarrow>
                 (\<exists>d w'. updateFeed e cfg u w = (Inr d, w') \<and> items d = out)) \<and>
            (\<not> writeOk e (getSourceFilePath e u) \<longrightarrow>
                 fst (updateFeed e cfg u w) = Inl PersistError)"
    if "?rest = (Inr out, w6)" for out w6
    using that clock fetch merge loop
    by (simp add: updateFeed_def saveFeedData_def Let_def split: prod.splits)
  have bad: "updateFeed e cfg u w = (Inl ReferenceError, w6)"
    if "?rest = (Inl x, w6)" for x w6
  proof -
    from that have "x = ReferenceError" by (rule summarizeItems_error)
    with that clock fetch merge loop show ?thesis
      by (simp add: updateFeed_def)
  qed
  have snap: "length (items d) = length (pre @ it # post) \<and> items d ! length pre = ?ph"
    if "updateFeed e cfg u w = (Inr d, w')" for d w'
  proof -
    obtain r w6 where r: "?rest = (r, w6)" by (cases ?rest)
    show ?thesis
    proof (cases r)
      case (Inl x)
      with r bad that show ?thesis by simp
    next
      case (Inr out)
      with r that clock fetch merge loop have "items d = out"
        by (auto simp: updateFeed_def saveFeedData_def Let_def split: prod.splits if_splits)
      with r Inr shape show ?thesis by simp
    qed
  qed
  from shape ok bad snap show ?thesis by blast
qed

theorem failed_summary_placeholder_witness:
  "\<exists>d w'. updateFeed envMixed cfg0 ''u'' world0 = (Inr d, w') \<and>
      items d = [(mk ''a'' None)\<lparr>content := ''one'', summary := Some SUMMARY_FAILED\<rparr>,
                 (mk ''b'' None)\<lparr>content := ''two'', summary := Some ''ok''\<rparr>]"
proof -
  let ?ia = "(mk ''a'' None)\<lparr>content := ''one''\<rparr>"
  let ?ib = "(mk ''b'' None)\<lparr>content := ''two''\<rparr>"
  let ?w1 = "world0\<lparr>clockReads := 1\<rparr>"
  let ?w3 = "world0\<lparr>clockReads := 1, fetches := 1\<rparr>"
  let ?w5 = "world0\<lparr>clockReads := 1, fetches := 1, apiCalls := 1\<rparr>"
  let ?F = "\<lparr>feedTitle = [], feedDescription = [], feedLink = [], feedItems = [?ia, ?ib]\<rparr>"
  have clock: "Date_now envMixed world0 = (0, ?w1)"
    by (simp add: Date_now_def envMixed_def env0_def world0_def)
  have fetch: "fetchRssFeed envMixed ''u'' (resetWindow 0 ?w1) = (Inr ?F, ?w3)"
    by (simp add: fetchRssFeed_def resetWindow_def envMixed_def env0_def world0_def
        rawFeedOf_def rawEntry_def serializeItem_def or_empty_def mk_def)
  have merge: "mergeFeedItems (existingItems envMixed ''u'' (resetWindow 0 ?w1)) (feedItems ?F)
      (maxItemsPerFeed cfg0) = ([] @ ?ia # [?ib], [?ia, ?ib])"
    by (simp add: existingItems_def loadFeedData_def resetWindow_def envMixed_def env0_def
        world0_def cfg0_def eval_defs)
  have pre: "summarizeItems envMixed [?ia, ?ib] [] [] ?w3 = (Inr [], ?w3)" by simp
  have needs: "\<exists>n \<in> set [?ia, ?ib]. link n = link ?ia" by simp
  have nosum: "\<not> truthy (summary ?ia)" by (simp add: mk_def truthy_def)
  have budget: "currentMinuteTokens ?w3 + estimateTokens ?ia \<le> 900000"
    by (simp add: world0_def estimateTokens_def mk_def)
  have fails: "retry (generateSummaryWithLimit envMixed (title ?ia) (content ?ia)) RETRY_CONFIG ?w3
      = (Inl AbortError, ?w5)"
    by (simp add: retry_def execute_def RETRY_CONFIG_def numeral_3_eq_3
        generateSummaryWithLimit_def envMixed_def env0_def world0_def)
  have second: "retry (generateSummaryWithLimit envMixed (title ?ib) (content ?ib)) RETRY_CONFIG ?w5
      = (Inr ''ok'', ?w5\<lparr>apiCalls := 2\<rparr>)"
    by (simp add: retry_def execute_def RETRY_CONFIG_def numeral_3_eq_3
        generateSummaryWithLimit_def or_default_def envMixed_def env0_def world0_def)
  have step: "summarizeItem envMixed [?ia, ?ib] ?ib ?w5 =
      (Inr (?ib\<lparr>summary := Some ''ok''\<rparr>), ?w5\<lparr>apiCalls := 2, currentMinuteTokens := 1\<rparr>)"
    unfolding summarizeItem_def second
    by (simp add: estimateTokens_def world0_def mk_def truthy_def)
  have rest: "summarizeItems envMixed [?ia, ?ib] [?ib] ([] @ [?ia\<lparr>summary := Some SUMMARY_FAILED\<rparr>]) ?w5
      = (Inr [?ia\<lparr>summary := Some SUMMARY_FAILED\<rparr>, ?ib\<lparr>summary := Some ''ok''\<rparr>],
         ?w5\<lparr>apiCalls := 2, currentMinuteTokens := 1\<rparr>)"
    by (simp only: summarizeItems.simps step prod.case sum.case append.simps)
  have wr: "writeOk envMixed (getSourceFilePath envMixed ''u'')"
    by (simp add: envMixed_def env0_def)
  from failed_summary_placeholder [OF clock fetch merge pre needs nosum budget fails] rest wr
  have "\<exists>d w'. updateFeed envMixed cfg0 ''u'' world0 = (Inr d, w') \<and>
      items d = [?ia\<lparr>summary := Some SUMMARY_FAILED\<rparr>, ?ib\<lparr>summary := Some ''ok''\<rparr>]"
    by blast
  then show ?thesis by simp
qed

text \<open>
  Claim C5 fails on the code.  A reservation that would exceed the ceiling of
  900000 does not suspend the loop until the window resets: the branch calls an
  identifier that is bound nowhere, so the update of the source fails with a
  reference error, and the counters are not reset.  First the update of a source
  whose only new entry has 2250003 characters (an estimate of 900001 tokens), then
  the run over all sources recording the failure, then one step of the loop after
  899999 tokens have been consumed.
\<close>

theorem budget_exceeded_throws:
  "updateFeed envBig cfg0 ''u'' world0 =
     (Inl ReferenceError, world0\<lparr>clockReads := 1, fetches := 1\<rparr>) \<and>
   fst (updateAllFeeds envBig cfg0 world0) = Inr (Map.empty(''u'' \<mapsto> False)) \<and>
   summarizeItem env0 [mk ''a'' None] ((mk ''a'' None)\<lparr>title := ''hello''\<rparr>)
       (world0\<lparr>currentMinuteTokens := 899999\<rparr>) =
     (Inl ReferenceError, world0\<lparr>currentMinuteTokens := 899999\<rparr>)"
proof -
  have one: "updateFeed envBig cfg0 ''u'' world0 =
     (Inl ReferenceError, world0\<lparr>clockReads := 1, fetches := 1\<rparr>)"
    by (simp add: envBig_def cfg0_def run_defs merge_defs summarizeItem_def estimateTokens_def)
  then have "fst (updateAllFeeds envBig cfg0 world0) = Inr (Map.empty(''u'' \<mapsto> False))"
    by (simp add: updateAllFeeds_def cfg0_def)
  moreover have "summarizeItem env0 [mk ''a'' None] ((mk ''a'' None)\<lparr>title := ''hello''\<rparr>)
       (world0\<lparr>currentMinuteTokens := 899999\<rparr>) =
     (Inl ReferenceError, world0\<lparr>currentMinuteTokens := 899999\<rparr>)"
    by (simp add: summarizeItem_def estimateTokens_def mk_def truthy_def world0_def)
  ultimately show ?thesis using one by simp
qed

section \<open>The run over all sources\<close>

text \<open>Generating summaries performs no fetch; each update performs exactly one.\<close>

lemma attempts_frame:
  assumes "\<And>s. f (snd (operation s)) = f s"
  shows "f (snd (attempts n operation lastError s)) = f s"
proof (induction n arbitrary: lastError s)
  case 0
  then show ?case by simp
next
  case (Suc n)
  obtain r s' where op: "operation s = (r, s')" by (cases "operation s")
  with assms [of s] have fs: "f s' = f s" by simp
  show ?case
  proof (cases r)
    case (Inl err)
    with op fs Suc.IH [of err s'] show ?thesis by simp
  next
    case (Inr v)
    with op fs show ?thesis by simp
  qed
qed

lemma retry_fetches:
  "fetches (snd (retry (generateSummaryWithLimit e t c) cfg w)) = fetches w"
  unfolding retry_def execute_def
  by (rule attempts_frame)
     (simp add: generateSummaryWithLimit_def Let_def split: http.splits body.splits)

lemma summarizeItem_fetches: "fetches (snd (summarizeItem e news it w)) = fetches w"
proof -
  have "fetches (snd (retry (generateSummaryWithLimit e (title it) (content it)) RETRY_CONFIG w)) = fetches w"
    by (rule retry_fetches)
  then show ?thesis
    by (auto simp: summarizeItem_def Let_def split: prod.splits sum.splits)
qed

lemma summarizeItems_fetches: "fetches (snd (summarizeItems e news xs acc w)) = fetches w"
proof (induction xs arbitrary: acc w)
  case Nil
  then show ?case by simp
next
  case (Cons it rest)
  obtain r w1 where step: "summarizeItem e news it w = (r, w1)"
    by (cases "summarizeItem e news it w")
  with summarizeItem_fetches [of e news it w] have "fetches w1 = fetches w" by simp
  with step Cons.IH show ?case by (cases r) simp_all
qed

lemma updateFeed_fetches: "fetches (snd (updateFeed e cfg u w)) = Suc (fetches w)"
proof -
  have s: "\<And>news xs acc w1 r w2. summarizeItems e news xs acc w1 = (r, w2) \<Longrightarrow> fetches w2 = fetches w1"
    using summarizeItems_fetches by (metis snd_conv)
  show ?thesis
    by (auto simp: updateFeed_def Let_def fetchRssFeed_def saveFeedData_def Date_now_def
        resetWindow_def split: prod.splits sum.splits option.splits dest!: s)
qed

lemma updateSources_append:
  "updateSources e cfg (xs @ ys) r w =
     (case updateSources e cfg xs r w of (r', w') \<Rightarrow> updateSources e cfg ys r' w')"
  by (induction xs arbitrary: r w) (simp_all split: prod.splits sum.splits)

lemma updateSources_dom:
  "dom (fst (updateSources e cfg srcs r w)) = dom r \<union> url ` set srcs"
  by (induction srcs arbitrary: r w) (auto split: prod.splits sum.splits)

lemma updateSources_other:
  "u \<notin> url ` set srcs \<Longrightarrow> fst (updateSources e cfg srcs r w) u = r u"
  by (induction srcs arbitrary: r w) (auto split: prod.splits sum.splits)

lemma updateSources_fetches:
  "fetches (snd (updateSources e cfg srcs r w)) = fetches w + length srcs"
proof (induction srcs arbitrary: r w)
  case Nil
  then show ?case by simp
next
  case (Cons src rest)
  obtain x w1 where step: "updateFeed e cfg (url src) w = (x, w1)"
    by (cases "updateFeed e cfg (url src) w")
  with updateFeed_fetches [of e cfg "url src" w] have "fetches w1 = Suc (fetches w)" by simp
  with step Cons.IH show ?case by (cases x) simp_all
qed

lemma main_exit: "(fst (main e cfg w) = 1) = (\<exists>err w'. updateAllFeeds e cfg w = (Inl err, w'))"
  by (auto simp: main_def split: prod.splits sum.splits)

text \<open>
  Claim C8.  Take any configured list of sources and any source in it whose
  address no later source repeats.  Whatever its update returns in the world left
  by the sources before it, a failure included, the run returns a result for the
  whole list: every source has a flag, the flag of this source tells whether its
  update succeeded, one fetch has been made per source, and the exit code is 0.  For any
  configuration, the exit code is 1 exactly when \<open>updateAllFeeds\<close> itself throws.
\<close>

theorem sources_isolated:
  assumes cfg: "sources cfg = Some (pre @ src # post)"
    and before: "updateSources e cfg pre Map.empty w = (r1, w1)"
    and last: "url src \<notin> url ` set post"
  shows "(\<exists>results w'.
            updateAllFeeds e cfg w = (Inr results, w') \<and>
            dom results = url ` set (pre @ src # post) \<and>
            results (url src) = Some (\<not> isl (fst (updateFeed e cfg (url src) w1))) \<and>
            fetches w' = fetches w + length (pre @ src # post) \<and>
            fst (main e cfg w) = 0) \<and>
         (\<forall>cfg' w0. (fst (main e cfg' w0) = 1) =
            (\<exists>err w'. updateAllFeeds e cfg' w0 = (Inl err, w')))"
proof -
  let ?srcs = "pre @ src # post"
  obtain results w' where run: "updateSources e cfg ?srcs Map.empty w = (results, w')"
    by (cases "updateSources e cfg ?srcs Map.empty w")
  from cfg run have all: "updateAllFeeds e cfg w = (Inr results, w')"
    by (simp add: updateAllFeeds_def)
  from run have "dom results = url ` set ?srcs"
    using updateSources_dom [of e cfg ?srcs Map.empty w] by simp
  moreover from run have "fetches w' = fetches w + length ?srcs"
    using updateSources_fetches [of e cfg ?srcs Map.empty w] by simp
  moreover have "results (url src) = Some (\<not> isl (fst (updateFeed e cfg (url src) w1)))"
  proof -
    obtain x w2 where step: "updateFeed e cfg (url src) w1 = (x, w2)"
      by (cases "updateFeed e cfg (url src) w1")
    let ?r2 = "r1(url src \<mapsto> \<not> isl x)"
    from step have "updateSources e cfg (src # post) r1 w1 = updateSources e cfg post ?r2 w2"
      by (cases x) simp_all
    with before run have "updateSources e cfg post ?r2 w2 = (results, w')"
      by (simp add: updateSources_append)
    with last have "results (url src) = ?r2 (url src)"
      using updateSources_other [of "url src" post e cfg ?r2 w2] by simp
    with step show ?thesis by simp
  qed
  moreover from all have "fst (main e cfg w) = 0" by (simp add: main_def)
  ultimately have "\<exists>results w'.
            updateAllFeeds e cfg w = (Inr results, w') \<and>
            dom results = url ` set (pre @ src # post) \<and>
            results (url src) = Some (\<not> isl (fst (updateFeed e cfg (url src) w1))) \<and>
            fetches w' = fetches w + length (pre @ src # post) \<and>
            fst (main e cfg w) = 0"
    using all by blast
  then show ?thesis using main_exit by blast
qed

theorem sources_isolated_witness:
  "\<exists>results w'. updateAllFeeds envSecond cfgTwo world0 = (Inr results, w') \<and>
      dom results = {''a'', ''b''} \<and> results ''b'' = Some True \<and> fetches w' = 2 \<and>
      fst (main envSecond cfgTwo world0) = 0 \<and> results ''a'' = Some False"
proof -
  have cfg: "sources cfgTwo = Some ([\<lparr>url = ''a''\<rparr>] @ \<lparr>url = ''b''\<rparr> # [])"
    by (simp add: cfgTwo_def)
  have before: "updateSources envSecond cfgTwo [\<lparr>url = ''a''\<rparr>] Map.empty world0 =
      (Map.empty(''a'' \<mapsto> False), world0\<lparr>clockReads := 1, fetches := 1\<rparr>)"
    by (simp add: envSecond_def cfgTwo_def run_defs)
  have last: "url \<lparr>url = ''b''\<rparr> \<notin> url ` set []" by simp
  have ok: "\<not> isl (fst (updateFeed envSecond cfgTwo ''b'' (world0\<lparr>clockReads := 1, fetches := 1\<rparr>)))"
    by (simp add: envSecond_def cfgTwo_def run_defs merge_defs)
  have zero: "fetches world0 = 0" by (simp add: world0_def)
  have first: "\<And>r w'. updateSources envSecond cfgTwo [\<lparr>url = ''a''\<rparr>, \<lparr>url = ''b''\<rparr>] Map.empty world0 = (r, w')
      \<Longrightarrow> r ''a'' = Some False"
    by (simp add: envSecond_def cfgTwo_def run_defs merge_defs split: prod.splits sum.splits)
  have "\<And>r w'. updateAllFeeds envSecond cfgTwo world0 = (Inr r, w') \<Longrightarrow> r ''a'' = Some False"
    using first by (auto simp: updateAllFeeds_def cfgTwo_def split: prod.splits)
  with sources_isolated [OF cfg before last] ok zero show ?thesis
    by (auto simp: insert_commute)
qed

section \<open>Loading a snapshot that cannot be used\<close>

















end
